theory Spec2Isabelle
  imports Main
begin

section \<open>Features and the dependency graph derived from them\<close>

text \<open>
  A feature as the graph view reads it: \<open>f.id\<close>, \<open>f.title\<close>, \<open>f.description\<close>,
  \<open>f.status\<close>, \<open>f.branchName\<close> and \<open>f.dependencies\<close>. A field that may be \<open>undefined\<close>
  or \<open>null\<close> in the TypeScript is an \<open>option\<close> here.
\<close>

record feature =
  fid :: string
  title :: "string option"
  description :: "string option"
  status :: string
  branchName :: "string option"
  dependencies :: "string list option"

text \<open>\<^verbatim>\<open>(f.dependencies as string[] | undefined) || []\<close>\<close>

definition deps_of :: "feature \<Rightarrow> string list" where
  "deps_of f = (case dependencies f of None \<Rightarrow> [] | Some ds \<Rightarrow> ds)"

text \<open>
  The derived dependency graph: one edge \<open>(depId, featureId)\<close> for every \<open>depId\<close> in the
  dependencies of a feature, pointing from the prerequisite to the dependent.
\<close>

definition edgeList :: "feature list \<Rightarrow> (string \<times> string) list" where
  "edgeList fs = concat (map (\<lambda>f. map (\<lambda>d. (d, fid f)) (deps_of f)) fs)"

definition edges :: "feature list \<Rightarrow> (string \<times> string) set" where
  "edges fs = set (edgeList fs)"

text \<open>The features that list \<open>x\<close> among their dependencies: the successors of \<open>x\<close>.\<close>

definition dependents :: "feature list \<Rightarrow> string \<Rightarrow> string list" where
  "dependents fs x = map fid (filter (\<lambda>f. x \<in> set (deps_of f)) fs)"

text \<open>Every id that occurs as a dependency of some feature.\<close>

definition depIds :: "feature list \<Rightarrow> string set" where
  "depIds fs = set (concat (map deps_of fs))"

subsection \<open>The dependency resolver\<close>

text \<open>
  Modelled from the spec: the package \<open>@automaker/dependency-resolver\<close>, from which the
  graph view imports \<open>dependencyExists\<close> and \<open>wouldCreateCircularDependency\<close>, is not
  among the source files. The spec gives \<open>dependencyExists(graph, sourceId, targetId)\<close> as
  true iff \<open>sourceId\<close> is in \<open>graph.dependencies(targetId)\<close>, the direct edge only.
\<close>

definition dependencyExists :: "feature list \<Rightarrow> string \<Rightarrow> string \<Rightarrow> bool" where
  "dependencyExists fs sourceId targetId =
     list_ex (\<lambda>f. fid f = targetId \<and> sourceId \<in> set (deps_of f)) fs"

lemma finite_depIds_diff: "finite (depIds fs - A)"
  by (simp add: depIds_def)

lemma dependents_outside: "x \<notin> depIds fs \<Longrightarrow> dependents fs x = []"
  by (auto simp: depIds_def dependents_def filter_empty_conv)

text \<open>
  Modelled from the spec: the cycle check is a forward reachability search from
  \<open>targetId\<close> over the dependency edges with a standard seen-set, answering whether
  \<open>sourceId\<close> is reachable. The search keeps a stack of nodes still to visit.
\<close>

function reachSearch :: "feature list \<Rightarrow> string \<Rightarrow> string list \<Rightarrow> string list \<Rightarrow> bool" where
  "reachSearch fs goal seen [] = False"
| "reachSearch fs goal seen (x # stack) =
     (if x = goal then True
      else if x \<in> set seen then reachSearch fs goal seen stack
      else reachSearch fs goal (x # seen) (dependents fs x @ stack))"
  by pat_completeness auto
termination
proof (relation "inv_image (less_than <*lex*> less_than)
          (\<lambda>(fs, goal, seen, stack). (card (depIds fs - set seen), length stack))")
  show "wf (inv_image (less_than <*lex*> less_than)
          (\<lambda>(fs, goal, seen, stack). (card (depIds fs - set seen), length stack)))"
    by (intro wf_inv_image wf_lex_prod wf_less_than)
next
  fix fs :: "feature list" and goal x :: string and seen stack :: "string list"
  assume "x \<noteq> goal" "x \<in> set seen"
  then show "((fs, goal, seen, stack), (fs, goal, seen, x # stack))
      \<in> inv_image (less_than <*lex*> less_than)
          (\<lambda>(fs, goal, seen, stack). (card (depIds fs - set seen), length stack))"
    by simp
next
  fix fs :: "feature list" and goal x :: string and seen stack :: "string list"
  assume "x \<noteq> goal" "x \<notin> set seen"
  show "((fs, goal, x # seen, dependents fs x @ stack), (fs, goal, seen, x # stack))
      \<in> inv_image (less_than <*lex*> less_than)
          (\<lambda>(fs, goal, seen, stack). (card (depIds fs - set seen), length stack))"
  proof (cases "x \<in> depIds fs")
    case True
    with \<open>x \<notin> set seen\<close> have "depIds fs - set (x # seen) \<subset> depIds fs - set seen"
      by auto
    then have "card (depIds fs - set (x # seen)) < card (depIds fs - set seen)"
      by (rule psubset_card_mono [OF finite_depIds_diff])
    then show ?thesis by simp
  next
    case False
    then have "depIds fs - set (x # seen) = depIds fs - set seen" by auto
    with False show ?thesis by (simp add: dependents_outside)
  qed
qed

text \<open>
  Modelled from the spec: \<open>wouldCreateCycle(graph, sourceId, targetId)\<close> simulates adding
  the edge "\<open>targetId\<close> depends on \<open>sourceId\<close>" and answers whether \<open>sourceId\<close> is already
  reachable from \<open>targetId\<close>: the search starts at \<open>targetId\<close> with nothing seen.
\<close>

definition wouldCreateCircularDependency :: "feature list \<Rightarrow> string \<Rightarrow> string \<Rightarrow> bool" where
  "wouldCreateCircularDependency fs sourceId targetId = reachSearch fs sourceId [] [targetId]"

section \<open>The graph view\<close>

subsection \<open>The store behind \<open>onUpdateFeature\<close>\<close>

text \<open>
  The \<open>Partial<Feature>\<close> handed to \<open>onUpdateFeature\<close>: a field that is \<open>None\<close> is not
  part of the update. The id of a feature is never updated.
\<close>

record feature_updates =
  new_title :: "string option"
  new_description :: "string option"
  new_status :: "string option"
  new_branchName :: "string option"
  new_dependencies :: "string list option"

text \<open>The update \<^verbatim>\<open>{ dependencies: ds }\<close>.\<close>

definition dependenciesUpdate :: "string list \<Rightarrow> feature_updates" where
  "dependenciesUpdate ds =
     \<lparr>new_title = None, new_description = None, new_status = None,
      new_branchName = None, new_dependencies = Some ds\<rparr>"

definition applyUpdates :: "feature_updates \<Rightarrow> feature \<Rightarrow> feature" where
  "applyUpdates u f =
     f\<lparr>title := (case new_title u of None \<Rightarrow> title f | Some v \<Rightarrow> Some v),
       description := (case new_description u of None \<Rightarrow> description f | Some v \<Rightarrow> Some v),
       status := (case new_status u of None \<Rightarrow> status f | Some v \<Rightarrow> v),
       branchName := (case new_branchName u of None \<Rightarrow> branchName f | Some v \<Rightarrow> Some v),
       dependencies := (case new_dependencies u of None \<Rightarrow> dependencies f | Some v \<Rightarrow> Some v)\<rparr>"

text \<open>
  Modelled from the spec: the implementation behind the \<open>onUpdateFeature\<close> property is
  not among the source files. The spec names the operation \<open>updateFeature(id, partialFields)\<close>
  on feature records keyed by id: the record with that id takes the given fields, every other
  record stays as it is.
\<close>

definition updateFeature :: "string \<Rightarrow> feature_updates \<Rightarrow> feature list \<Rightarrow> feature list" where
  "updateFeature i u fs = map (\<lambda>f. if fid f = i then applyUpdates u f else f) fs"

text \<open>
  \<open>onUpdateFeature\<close> is an optional property of the view, called as
  \<^verbatim>\<open>onUpdateFeature?.(targetId, updates)\<close>: when it is absent, nothing is called.
\<close>

type_synonym updater = "string \<Rightarrow> feature_updates \<Rightarrow> feature list \<Rightarrow> feature list"

definition callUpdate :: "updater option \<Rightarrow> string \<Rightarrow> feature_updates \<Rightarrow> feature list \<Rightarrow> feature list" where
  "callUpdate onUpdateFeature i u fs =
     (case onUpdateFeature of None \<Rightarrow> fs | Some g \<Rightarrow> g i u fs)"

subsection \<open>Creating and deleting a dependency\<close>

datatype toast = ToastError string | ToastInfo string | ToastSuccess string

record outcome =
  returned :: bool
  shown :: toast
  store :: "feature list"

text \<open>
  \<open>handleCreateDependency(sourceId, targetId)\<close>, with the \<open>features\<close> and the
  \<open>onUpdateFeature\<close> it closes over as arguments. The result holds the returned boolean, the
  toast shown and the features after the call. The debug logging is left out.
\<close>

definition handleCreateDependency :: "updater option \<Rightarrow> feature list \<Rightarrow> string \<Rightarrow> string \<Rightarrow> outcome" where
  "handleCreateDependency onUpdateFeature features sourceId targetId =
     (let targetFeature = find (\<lambda>f. fid f = targetId) features in
      if sourceId = targetId then
        \<lparr>returned = False, shown = ToastError ''A task cannot depend on itself'', store = features\<rparr>
      else if dependencyExists features sourceId targetId then
        \<lparr>returned = False, shown = ToastInfo ''Dependency already exists'', store = features\<rparr>
      else if wouldCreateCircularDependency features sourceId targetId then
        \<lparr>returned = False, shown = ToastError ''Cannot create circular dependency'', store = features\<rparr>
      else (case targetFeature of
          None \<Rightarrow>
            \<lparr>returned = False, shown = ToastError ''Target task not found'', store = features\<rparr>
        | Some tf \<Rightarrow>
            (let currentDeps = deps_of tf in
             \<lparr>returned = True, shown = ToastSuccess ''Dependency created'',
              store = callUpdate onUpdateFeature targetId
                        (dependenciesUpdate (currentDeps @ [sourceId])) features\<rparr>)))"

text \<open>
  A sequence of dependency-creation calls, each on the features the one before left, that
  individually succeed; \<open>None\<close> when one of them returns false.
\<close>

fun createDependencies :: "updater option \<Rightarrow> feature list \<Rightarrow> (string \<times> string) list \<Rightarrow> feature list option" where
  "createDependencies onUpdateFeature features [] = Some features"
| "createDependencies onUpdateFeature features ((sourceId, targetId) # calls) =
     (let r = handleCreateDependency onUpdateFeature features sourceId targetId in
      if returned r then createDependencies onUpdateFeature (store r) calls else None)"

text \<open>
  \<open>nodeActionCallbacks.onDeleteDependency(sourceId, targetId)\<close>: the toast shown, if any,
  and the features after the call.
\<close>

definition onDeleteDependency :: "updater option \<Rightarrow> feature list \<Rightarrow> string \<Rightarrow> string \<Rightarrow> toast option \<times> feature list" where
  "onDeleteDependency onUpdateFeature features sourceId targetId =
     (case find (\<lambda>f. fid f = targetId) features of
        None \<Rightarrow> (None, features)
      | Some targetFeature \<Rightarrow>
          (let currentDeps = deps_of targetFeature;
               newDeps = filter (\<lambda>depId. depId \<noteq> sourceId) currentDeps
           in (Some (ToastSuccess ''Dependency removed''),
               callUpdate onUpdateFeature targetId (dependenciesUpdate newDeps) features)))"

text \<open>No feature lists its own id among its dependencies.\<close>

definition noSelfDependency :: "feature list \<Rightarrow> bool" where
  "noSelfDependency fs = list_all (\<lambda>f. fid f \<notin> set (deps_of f)) fs"

subsection \<open>Filtering the features by worktree\<close>

text \<open>
  The truthiness test on a string that may be absent, as in \<^verbatim>\<open>if (!featureBranch)\<close>: the
  string, when it is present and not empty.
\<close>

definition present :: "string option \<Rightarrow> string option" where
  "present s = (case s of None \<Rightarrow> None | Some v \<Rightarrow> if v = [] then None else Some v)"

text \<open>
  The predicate of \<open>filteredFeatures\<close>. \<open>isPrimaryWorktreeBranch\<close> belongs to the
  application store, which is not among the source files, and is an argument here.
\<close>

definition shownInGraph ::
  "(string \<Rightarrow> string \<Rightarrow> bool) \<Rightarrow> string option \<Rightarrow> string option \<Rightarrow> string option \<Rightarrow> feature \<Rightarrow> bool" where
  "shownInGraph isPrimaryWorktreeBranch currentWorktreePath currentWorktreeBranch projectPath f =
     (if status f = ''completed'' then False
      else (case present (branchName f) of
          None \<Rightarrow> currentWorktreePath = None
        | Some featureBranch \<Rightarrow>
            (case currentWorktreeBranch of
               None \<Rightarrow>
                 (case present projectPath of
                    None \<Rightarrow> False
                  | Some p \<Rightarrow> isPrimaryWorktreeBranch p featureBranch)
             | Some effectiveBranch \<Rightarrow> featureBranch = effectiveBranch)))"

definition filteredFeatures ::
  "(string \<Rightarrow> string \<Rightarrow> bool) \<Rightarrow> feature list \<Rightarrow> string option \<Rightarrow> string option \<Rightarrow> string option \<Rightarrow> feature list" where
  "filteredFeatures isPrimaryWorktreeBranch features currentWorktreePath currentWorktreeBranch projectPath =
     filter (shownInGraph isPrimaryWorktreeBranch currentWorktreePath currentWorktreeBranch projectPath) features"

section \<open>Authentication\<close>

text \<open>
  The session store \<open>validSessions\<close> is a map from token to its creation and expiry time,
  in milliseconds. \<open>Date.now()\<close> is an argument of every function that reads the clock.
  Writing the store to the sessions file does not change the store and is left out.
\<close>

record session =
  createdAt :: int
  expiresAt :: int

type_synonym sessions = "string \<rightharpoonup> session"

definition SESSION_MAX_AGE_MS :: int where
  "SESSION_MAX_AGE_MS = 30 * 24 * 60 * 60 * 1000"

text \<open>\<open>createSession\<close>, with the token that \<open>generateSessionToken\<close> draws as an argument.\<close>

definition createSession :: "string \<Rightarrow> int \<Rightarrow> sessions \<Rightarrow> string \<times> sessions" where
  "createSession token now validSessions =
     (token, validSessions(token \<mapsto> \<lparr>createdAt = now, expiresAt = now + SESSION_MAX_AGE_MS\<rparr>))"

definition validateSession :: "int \<Rightarrow> string \<Rightarrow> sessions \<Rightarrow> bool \<times> sessions" where
  "validateSession now token validSessions =
     (case validSessions token of
        None \<Rightarrow> (False, validSessions)
      | Some s \<Rightarrow>
          if now > expiresAt s then (False, validSessions(token := None))
          else (True, validSessions))"

text \<open>A run of \<open>validateSession\<close> calls, each given as the clock reading and the token.\<close>

fun validateAll :: "(int \<times> string) list \<Rightarrow> sessions \<Rightarrow> sessions" where
  "validateAll [] validSessions = validSessions"
| "validateAll ((now, token) # calls) validSessions =
     validateAll calls (snd (validateSession now token validSessions))"

text \<open>
  What \<open>authMiddleware\<close> reads of a request: the \<open>x-api-key\<close> and \<open>x-session-token\<close>
  headers, the \<open>apiKey\<close> query parameter and the session cookie, each absent or a string.
\<close>

record request =
  headerKey :: "string option"
  sessionTokenHeader :: "string option"
  queryKey :: "string option"
  sessionCookie :: "string option"

datatype response = Next | Status nat string

text \<open>
  \<open>authMiddleware\<close>, with the configured \<open>API_KEY\<close> and the clock as arguments: either
  \<open>next()\<close> is called or a status with an error message is sent. Each credential is
  looked at only when it passes the truthiness test, as in \<^verbatim>\<open>if (headerKey)\<close>.
\<close>

definition authMiddleware :: "string \<Rightarrow> int \<Rightarrow> request \<Rightarrow> sessions \<Rightarrow> response \<times> sessions" where
  "authMiddleware API_KEY now req validSessions =
     (case present (headerKey req) of
        Some k \<Rightarrow>
          if k = API_KEY then (Next, validSessions)
          else (Status 403 ''Invalid API key.'', validSessions)
      | None \<Rightarrow>
     (case present (sessionTokenHeader req) of
        Some tok \<Rightarrow>
          (case validateSession now tok validSessions of
             (True, vs) \<Rightarrow> (Next, vs)
           | (False, vs) \<Rightarrow> (Status 403 ''Invalid or expired session token.'', vs))
      | None \<Rightarrow>
     (case present (queryKey req) of
        Some k \<Rightarrow>
          if k = API_KEY then (Next, validSessions)
          else (Status 403 ''Invalid API key.'', validSessions)
      | None \<Rightarrow>
     (case present (sessionCookie req) of
        Some tok \<Rightarrow>
          (case validateSession now tok validSessions of
             (True, vs) \<Rightarrow> (Next, vs)
           | (False, vs) \<Rightarrow> (Status 401 ''Authentication required.'', vs))
      | None \<Rightarrow> (Status 401 ''Authentication required.'', validSessions)))))"

section \<open>Example features\<close>

text \<open>A feature with the given id and dependencies, used in the examples below.\<close>

definition exampleFeature :: "string \<Rightarrow> string list option \<Rightarrow> feature" where
  "exampleFeature i ds =
     \<lparr>fid = i, title = None, description = None, status = ''backlog'',
      branchName = None, dependencies = ds\<rparr>"

text \<open>The definitions that evaluating the graph view on concrete features unfolds.\<close>

lemmas example_simps =
  exampleFeature_def handleCreateDependency_def dependencyExists_def
  wouldCreateCircularDependency_def dependents_def deps_of_def callUpdate_def
  updateFeature_def applyUpdates_def dependenciesUpdate_def edges_def edgeList_def Let_def

section \<open>Properties of the dependency graph\<close>

text \<open>
  The edges out of nodes that the search has not seen yet: the part of the graph a search
  with seen-set \<open>seen\<close> can still walk.
\<close>

definition unseenEdges :: "feature list \<Rightarrow> string list \<Rightarrow> (string \<times> string) set" where
  "unseenEdges fs seen = {(a, b). (a, b) \<in> edges fs \<and> a \<notin> set seen}"

lemma edges_iff: "(d, i) \<in> edges fs \<longleftrightarrow> (\<exists>f \<in> set fs. fid f = i \<and> d \<in> set (deps_of f))"
  by (auto simp: edges_def edgeList_def)

lemma dependencyExists_iff: "dependencyExists fs s t \<longleftrightarrow> (s, t) \<in> edges fs"
  by (auto simp: dependencyExists_def list_ex_iff edges_iff)

lemma set_dependents: "set (dependents fs x) = {y. (x, y) \<in> edges fs}"
  by (auto simp: dependents_def edges_def edgeList_def)

lemma last_visit:
  assumes "(y, g) \<in> R\<^sup>*" and "x \<noteq> g"
  shows "(y, g) \<in> {(a, b). (a, b) \<in> R \<and> a \<noteq> x}\<^sup>* \<or>
         (\<exists>z. (x, z) \<in> R \<and> (z, g) \<in> {(a, b). (a, b) \<in> R \<and> a \<noteq> x}\<^sup>*)"
  using assms(1)
proof (induction rule: converse_rtrancl_induct)
  case base
  then show ?case by simp
next
  case (step y y')
  let ?R' = "{(a, b). (a, b) \<in> R \<and> a \<noteq> x}"
  from step.IH show ?case
  proof
    assume rest: "(y', g) \<in> ?R'\<^sup>*"
    show ?thesis
    proof (cases "y = x")
      case True
      with step.hyps(1) rest show ?thesis by blast
    next
      case False
      with step.hyps(1) have "(y, y') \<in> ?R'" by simp
      with rest show ?thesis by (blast intro: converse_rtrancl_into_rtrancl)
    qed
  next
    assume "\<exists>z. (x, z) \<in> R \<and> (z, g) \<in> ?R'\<^sup>*"
    then show ?thesis by blast
  qed
qed

lemma unseenEdges_Cons:
  "unseenEdges fs (x # seen) = {(a, b). (a, b) \<in> unseenEdges fs seen \<and> a \<noteq> x}"
  by (auto simp: unseenEdges_def)

lemma seen_blocked:
  assumes "(x, g) \<in> (unseenEdges fs seen)\<^sup>*" and "x \<in> set seen"
  shows "x = g"
  using assms by (induction rule: converse_rtrancl_induct) (auto simp: unseenEdges_def)

lemma reachSearch_correct:
  "reachSearch fs goal seen stack \<longleftrightarrow> (\<exists>x \<in> set stack. (x, goal) \<in> (unseenEdges fs seen)\<^sup>*)"
proof (induction fs goal seen stack rule: reachSearch.induct)
  case (1 fs goal seen)
  then show ?case by simp
next
  case (2 fs goal seen x stack)
  show ?case
  proof (cases "x = goal")
    case True
    then show ?thesis by auto
  next
    case ne: False
    show ?thesis
    proof (cases "x \<in> set seen")
      case True
      with ne have "(x, goal) \<notin> (unseenEdges fs seen)\<^sup>*"
        using seen_blocked by blast
      with ne True 2(1) show ?thesis by simp
    next
      case False
      let ?U = "unseenEdges fs seen" and ?U' = "unseenEdges fs (x # seen)"
      have sub: "?U'\<^sup>* \<subseteq> ?U\<^sup>*"
        by (rule rtrancl_mono) (auto simp: unseenEdges_def)
      have IH: "reachSearch fs goal (x # seen) (dependents fs x @ stack) \<longleftrightarrow>
                (\<exists>y \<in> set (dependents fs x @ stack). (y, goal) \<in> ?U'\<^sup>*)"
        using 2(2) ne False by simp
      have "(\<exists>y \<in> set (dependents fs x @ stack). (y, goal) \<in> ?U'\<^sup>*) \<longleftrightarrow>
            (\<exists>y \<in> set (x # stack). (y, goal) \<in> ?U\<^sup>*)" (is "?L \<longleftrightarrow> ?R")
      proof
        assume ?L
        then obtain y where y: "y \<in> set (dependents fs x) \<or> y \<in> set stack" "(y, goal) \<in> ?U'\<^sup>*"
          by auto
        from y(2) sub have yg: "(y, goal) \<in> ?U\<^sup>*" by blast
        from y(1) show ?R
        proof
          assume "y \<in> set (dependents fs x)"
          with False have "(x, y) \<in> ?U" by (simp add: set_dependents unseenEdges_def)
          with yg have "(x, goal) \<in> ?U\<^sup>*" by (blast intro: converse_rtrancl_into_rtrancl)
          then show ?R by simp
        next
          assume "y \<in> set stack"
          with yg show ?R by auto
        qed
      next
        assume ?R
        then obtain y where y: "y \<in> set (x # stack)" "(y, goal) \<in> ?U\<^sup>*" by blast
        from last_visit [OF y(2) ne]
        have "(y, goal) \<in> ?U'\<^sup>* \<or> (\<exists>z. (x, z) \<in> ?U \<and> (z, goal) \<in> ?U'\<^sup>*)"
          by (simp add: unseenEdges_Cons)
        then show ?L
        proof
          assume a: "(y, goal) \<in> ?U'\<^sup>*"
          have "y \<noteq> x"
          proof
            assume "y = x"
            with a have "(x, goal) \<in> ?U'\<^sup>*" by simp
            then have "x = goal" by (rule seen_blocked) simp
            with ne show False by simp
          qed
          with y(1) a show ?L by auto
        next
          assume "\<exists>z. (x, z) \<in> ?U \<and> (z, goal) \<in> ?U'\<^sup>*"
          then obtain z where "(x, z) \<in> ?U" "(z, goal) \<in> ?U'\<^sup>*" by blast
          then show ?L by (auto simp: set_dependents unseenEdges_def)
        qed
      qed
      with IH ne False show ?thesis by simp
    qed
  qed
qed

lemma wouldCycle_iff:
  "wouldCreateCircularDependency fs s t \<longleftrightarrow> (t, s) \<in> (edges fs)\<^sup>*"
proof -
  have "unseenEdges fs [] = edges fs" by (auto simp: unseenEdges_def)
  then show ?thesis
    by (simp add: wouldCreateCircularDependency_def reachSearch_correct)
qed

lemma wouldCycle_acyclic:
  "acyclic (edges fs) \<Longrightarrow>
   wouldCreateCircularDependency fs s t \<longleftrightarrow> \<not> acyclic (insert (s, t) (edges fs))"
  by (simp add: wouldCycle_iff)

text \<open>
  C2: the cycle check answers true exactly when \<open>sourceId\<close> is reachable from \<open>targetId\<close>
  over the existing dependency edges, which is exactly when the graph with the edge
  "\<open>targetId\<close> depends on \<open>sourceId\<close>" added has a path from \<open>targetId\<close> back to \<open>sourceId\<close>.
  This holds for every pair of ids, whether or not the edge is already present.
\<close>

theorem wouldCreateCircularDependency_correct:
  "(wouldCreateCircularDependency fs sourceId targetId
      \<longleftrightarrow> (targetId, sourceId) \<in> (edges fs)\<^sup>*) \<and>
   (wouldCreateCircularDependency fs sourceId targetId
      \<longleftrightarrow> (targetId, sourceId) \<in> (insert (sourceId, targetId) (edges fs))\<^sup>*)"
proof -
  have "(targetId, sourceId) \<in> (insert (sourceId, targetId) (edges fs))\<^sup>*
        \<longleftrightarrow> (targetId, sourceId) \<in> (edges fs)\<^sup>*"
    by (auto simp: rtrancl_insert)
  then show ?thesis by (simp add: wouldCycle_iff)
qed

theorem wouldCreateCircularDependency_correct_witness:
  "wouldCreateCircularDependency
     [exampleFeature ''a'' None, exampleFeature ''b'' (Some [''a'']), exampleFeature ''c'' (Some [''b''])]
     ''c'' ''a'' \<and>
   (''a'', ''c'') \<in> (edges
     [exampleFeature ''a'' None, exampleFeature ''b'' (Some [''a'']), exampleFeature ''c'' (Some [''b''])])\<^sup>* \<and>
   \<not> wouldCreateCircularDependency
     [exampleFeature ''a'' None, exampleFeature ''b'' (Some [''a'']), exampleFeature ''c'' (Some [''b''])]
     ''a'' ''c'' \<and>
   (''c'', ''a'') \<notin> (edges
     [exampleFeature ''a'' None, exampleFeature ''b'' (Some [''a'']), exampleFeature ''c'' (Some [''b''])])\<^sup>*"
proof -
  let ?fs = "[exampleFeature ''a'' None, exampleFeature ''b'' (Some [''a'']), exampleFeature ''c'' (Some [''b''])]"
  have y: "wouldCreateCircularDependency ?fs ''c'' ''a''"
    by (simp add: wouldCreateCircularDependency_def dependents_def deps_of_def exampleFeature_def)
  have n: "\<not> wouldCreateCircularDependency ?fs ''a'' ''c''"
    by (simp add: wouldCreateCircularDependency_def dependents_def deps_of_def exampleFeature_def)
  from wouldCreateCircularDependency_correct [of ?fs "''c''" "''a''"]
       wouldCreateCircularDependency_correct [of ?fs "''a''" "''c''"] y n
  show ?thesis by blast
qed

section \<open>Properties of the graph view\<close>

lemma applyUpdates_dependencies:
  "applyUpdates (dependenciesUpdate ds) f = f\<lparr>dependencies := Some ds\<rparr>"
  by (simp add: applyUpdates_def dependenciesUpdate_def)

lemma updateFeature_dependencies:
  "updateFeature i (dependenciesUpdate ds) fs =
     map (\<lambda>f. if fid f = i then f\<lparr>dependencies := Some ds\<rparr> else f) fs"
  by (simp add: updateFeature_def applyUpdates_dependencies)

lemma find_target: "find (\<lambda>f. fid f = t) fs = Some tf \<Longrightarrow> tf \<in> set fs \<and> fid tf = t"
  by (auto simp: find_Some_iff)

lemma find_updateFeature:
  "find (\<lambda>f. fid f = t) (updateFeature t (dependenciesUpdate ds) fs) =
     map_option (\<lambda>f. f\<lparr>dependencies := Some ds\<rparr>) (find (\<lambda>f. fid f = t) fs)"
  by (induction fs) (auto simp: updateFeature_dependencies)

lemma map_fid_updateFeature: "map fid (updateFeature i (dependenciesUpdate ds) fs) = map fid fs"
  by (simp add: updateFeature_dependencies)

lemma edges_updateFeature:
  "edges (updateFeature t (dependenciesUpdate ds) fs) \<subseteq>
     edges fs \<union> {(d, t) | d. d \<in> set ds}"
  by (auto simp: edges_iff updateFeature_dependencies deps_of_def split: if_splits)

lemma edges_add_dependency:
  assumes "find (\<lambda>f. fid f = t) fs = Some tf"
  shows "edges (updateFeature t (dependenciesUpdate (deps_of tf @ [s])) fs) \<subseteq> insert (s, t) (edges fs)"
proof -
  from assms have "tf \<in> set fs" "fid tf = t" by (auto dest: find_target)
  then have "{(d, t) | d. d \<in> set (deps_of tf)} \<subseteq> edges fs"
    by (auto simp: edges_iff)
  with edges_updateFeature [of t "deps_of tf @ [s]" fs] show ?thesis by auto
qed

lemma dependencyExists_updateFeature:
  "dependencyExists (updateFeature t (dependenciesUpdate ds) fs) s t \<longleftrightarrow>
     (\<exists>f \<in> set fs. fid f = t) \<and> s \<in> set ds"
  by (induction fs) (auto simp: dependencyExists_def updateFeature_dependencies deps_of_def)

lemma handleCreateDependency_rejected:
  "\<not> returned (handleCreateDependency cb fs s t) \<Longrightarrow> store (handleCreateDependency cb fs s t) = fs"
  by (auto simp: handleCreateDependency_def Let_def split: if_splits option.splits)

lemma handleCreateDependency_accepted:
  assumes "returned (handleCreateDependency cb fs s t)"
  shows "s \<noteq> t \<and> \<not> dependencyExists fs s t \<and> \<not> wouldCreateCircularDependency fs s t \<and>
         (\<exists>tf. find (\<lambda>f. fid f = t) fs = Some tf \<and>
            store (handleCreateDependency cb fs s t) =
              callUpdate cb t (dependenciesUpdate (deps_of tf @ [s])) fs)"
  using assms
  by (auto simp: handleCreateDependency_def Let_def split: if_splits option.splits)

lemma handleCreateDependency_acyclic:
  assumes "acyclic (edges fs)" and "cb = None \<or> cb = Some updateFeature"
  shows "acyclic (edges (store (handleCreateDependency cb fs s t)))"
proof (cases "returned (handleCreateDependency cb fs s t)")
  case False
  with assms(1) show ?thesis by (simp add: handleCreateDependency_rejected)
next
  case True
  from handleCreateDependency_accepted [OF True] obtain tf where
    ne: "s \<noteq> t" and nc: "\<not> wouldCreateCircularDependency fs s t" and
    tf: "find (\<lambda>f. fid f = t) fs = Some tf" and
    st: "store (handleCreateDependency cb fs s t) =
           callUpdate cb t (dependenciesUpdate (deps_of tf @ [s])) fs"
    by blast
  from assms(2) show ?thesis
  proof
    assume "cb = None"
    with st assms(1) show ?thesis by (simp add: callUpdate_def)
  next
    assume cb: "cb = Some updateFeature"
    from nc have "(t, s) \<notin> (edges fs)\<^sup>*" by (simp add: wouldCycle_iff)
    with assms(1) have "acyclic (insert (s, t) (edges fs))" by simp
    then have "acyclic (edges (updateFeature t (dependenciesUpdate (deps_of tf @ [s])) fs))"
      by (rule acyclic_subset) (rule edges_add_dependency [OF tf])
    with st cb show ?thesis by (simp add: callUpdate_def)
  qed
qed

text \<open>
  C1: starting from features whose dependency graph is acyclic, after any sequence of
  \<open>handleCreateDependency\<close> calls that each return true, the dependency graph of the
  resulting features is acyclic: it has no cycle of any length. The calls go to the store
  through \<open>onUpdateFeature\<close>, or to nothing when the property is absent.
\<close>

theorem createDependencies_acyclic:
  assumes "acyclic (edges features)"
    and "onUpdateFeature = None \<or> onUpdateFeature = Some updateFeature"
    and "createDependencies onUpdateFeature features calls = Some features'"
  shows "acyclic (edges features')"
  using assms
proof (induction calls arbitrary: features)
  case Nil
  then show ?case by simp
next
  case (Cons c calls)
  obtain s t where c: "c = (s, t)" by (cases c)
  let ?r = "handleCreateDependency onUpdateFeature features s t"
  from Cons.prems(3) c have run: "createDependencies onUpdateFeature (store ?r) calls = Some features'"
    by (simp add: Let_def split: if_splits)
  have "acyclic (edges (store ?r))"
    using Cons.prems(1,2) by (rule handleCreateDependency_acyclic)
  then show ?case using Cons.prems(2) run by (rule Cons.IH)
qed

theorem createDependencies_acyclic_witness:
  "acyclic (edges [exampleFeature ''a'' None, exampleFeature ''b'' None, exampleFeature ''c'' (Some [])]) \<and>
   createDependencies (Some updateFeature)
     [exampleFeature ''a'' None, exampleFeature ''b'' None, exampleFeature ''c'' (Some [])]
     [(''a'', ''b''), (''b'', ''c'')] =
     Some [exampleFeature ''a'' None, exampleFeature ''b'' (Some [''a'']), exampleFeature ''c'' (Some [''b''])] \<and>
   acyclic (edges [exampleFeature ''a'' None, exampleFeature ''b'' (Some [''a'']), exampleFeature ''c'' (Some [''b''])])"
proof -
  let ?fs = "[exampleFeature ''a'' None, exampleFeature ''b'' None, exampleFeature ''c'' (Some [])]"
  let ?fs' = "[exampleFeature ''a'' None, exampleFeature ''b'' (Some [''a'']), exampleFeature ''c'' (Some [''b''])]"
  have a: "acyclic (edges ?fs)"
    by (simp add: example_simps acyclic_def)
  have r: "createDependencies (Some updateFeature) ?fs [(''a'', ''b''), (''b'', ''c'')] = Some ?fs'"
    by (simp add: example_simps)
  from createDependencies_acyclic [OF a _ r] a r show ?thesis by simp
qed

text \<open>
  C3: a dependency-creation attempt that is rejected (self-dependency, edge already
  there, cycle, or target feature missing) returns false, and whenever the call returns
  false the features are exactly what they were, whatever \<open>onUpdateFeature\<close> is.
\<close>

theorem rejected_unchanged:
  "(sourceId = targetId \<or> dependencyExists features sourceId targetId \<or>
      wouldCreateCircularDependency features sourceId targetId \<or>
      find (\<lambda>f. fid f = targetId) features = None
    \<longrightarrow> \<not> returned (handleCreateDependency onUpdateFeature features sourceId targetId)) \<and>
   (\<not> returned (handleCreateDependency onUpdateFeature features sourceId targetId)
    \<longrightarrow> store (handleCreateDependency onUpdateFeature features sourceId targetId) = features)"
  by (auto simp: handleCreateDependency_def Let_def split: option.splits)

theorem rejected_unchanged_witness:
  "wouldCreateCircularDependency [exampleFeature ''a'' None, exampleFeature ''b'' (Some [''a''])] ''b'' ''a'' \<and>
   handleCreateDependency (Some updateFeature)
     [exampleFeature ''a'' None, exampleFeature ''b'' (Some [''a''])] ''b'' ''a'' =
     \<lparr>returned = False, shown = ToastError ''Cannot create circular dependency'',
      store = [exampleFeature ''a'' None, exampleFeature ''b'' (Some [''a''])]\<rparr>"
proof -
  let ?fs = "[exampleFeature ''a'' None, exampleFeature ''b'' (Some [''a''])]"
  have w: "wouldCreateCircularDependency ?fs ''b'' ''a''"
    by (simp add: example_simps)
  have s: "shown (handleCreateDependency (Some updateFeature) ?fs ''b'' ''a'') =
             ToastError ''Cannot create circular dependency''"
    by (simp add: example_simps)
  from rejected_unchanged [of "''b''" "''a''" ?fs "Some updateFeature"] w
  have "\<not> returned (handleCreateDependency (Some updateFeature) ?fs ''b'' ''a'')"
       "store (handleCreateDependency (Some updateFeature) ?fs ''b'' ''a'') = ?fs"
    by blast+
  with w s show ?thesis
    by (cases "handleCreateDependency (Some updateFeature) ?fs ''b'' ''a''") simp
qed

lemma noSelfDependency_iff: "noSelfDependency fs \<longleftrightarrow> (\<forall>f \<in> set fs. fid f \<notin> set (deps_of f))"
  by (simp add: noSelfDependency_def list_all_iff)

lemma handleCreateDependency_noSelf:
  assumes "noSelfDependency fs" and "cb = None \<or> cb = Some updateFeature"
  shows "noSelfDependency (store (handleCreateDependency cb fs s t))"
proof (cases "returned (handleCreateDependency cb fs s t)")
  case False
  with assms(1) show ?thesis by (simp add: handleCreateDependency_rejected)
next
  case True
  from handleCreateDependency_accepted [OF True] obtain tf where
    ne: "s \<noteq> t" and
    tf: "find (\<lambda>f. fid f = t) fs = Some tf" and
    st: "store (handleCreateDependency cb fs s t) =
           callUpdate cb t (dependenciesUpdate (deps_of tf @ [s])) fs"
    by blast
  from tf have "tf \<in> set fs" "fid tf = t" by (auto dest: find_target)
  with assms(1) have "t \<notin> set (deps_of tf)" by (auto simp: noSelfDependency_iff)
  with ne assms show ?thesis unfolding st
    by (auto simp: callUpdate_def noSelfDependency_iff updateFeature_dependencies deps_of_def)
qed

lemma createDependencies_noSelf:
  assumes "noSelfDependency fs" and "cb = None \<or> cb = Some updateFeature"
    and "createDependencies cb fs calls = Some fs'"
  shows "noSelfDependency fs'"
  using assms
proof (induction calls arbitrary: fs)
  case Nil
  then show ?case by simp
next
  case (Cons c calls)
  obtain s t where c: "c = (s, t)" by (cases c)
  let ?r = "handleCreateDependency cb fs s t"
  from Cons.prems(3) c have run: "createDependencies cb (store ?r) calls = Some fs'"
    by (simp add: Let_def split: if_splits)
  have "noSelfDependency (store ?r)"
    using Cons.prems(1,2) by (rule handleCreateDependency_noSelf)
  then show ?case using Cons.prems(2) run by (rule Cons.IH)
qed

text \<open>
  C4: a call with \<open>sourceId\<close> equal to \<open>targetId\<close> returns false with the error toast
  and leaves the features as they were; and when no feature lists its own id among its
  dependencies, none does after any sequence of successful dependency-creation calls.
\<close>

theorem self_dependency_rejected:
  "handleCreateDependency onUpdateFeature features sourceId sourceId =
     \<lparr>returned = False, shown = ToastError ''A task cannot depend on itself'', store = features\<rparr> \<and>
   (noSelfDependency features \<and>
    (onUpdateFeature = None \<or> onUpdateFeature = Some updateFeature) \<and>
    createDependencies onUpdateFeature features calls = Some features'
    \<longrightarrow> noSelfDependency features')"
  using createDependencies_noSelf [of features onUpdateFeature calls features']
  by (simp add: handleCreateDependency_def)

theorem self_dependency_rejected_witness:
  "noSelfDependency [exampleFeature ''a'' None, exampleFeature ''b'' None] \<and>
   createDependencies (Some updateFeature) [exampleFeature ''a'' None, exampleFeature ''b'' None]
     [(''a'', ''b'')] = Some [exampleFeature ''a'' None, exampleFeature ''b'' (Some [''a''])] \<and>
   noSelfDependency [exampleFeature ''a'' None, exampleFeature ''b'' (Some [''a''])] \<and>
   \<not> returned (handleCreateDependency (Some updateFeature)
        [exampleFeature ''a'' None, exampleFeature ''b'' None] ''a'' ''a'')"
proof -
  let ?fs = "[exampleFeature ''a'' None, exampleFeature ''b'' None]"
  let ?fs' = "[exampleFeature ''a'' None, exampleFeature ''b'' (Some [''a''])]"
  have n: "noSelfDependency ?fs"
    by (simp add: noSelfDependency_def example_simps)
  have r: "createDependencies (Some updateFeature) ?fs [(''a'', ''b'')] = Some ?fs'"
    by (simp add: example_simps)
  from self_dependency_rejected [of "Some updateFeature" ?fs "''a''" "[(''a'', ''b'')]" ?fs'] n r
  show ?thesis by simp
qed

text \<open>
  C5, as amended: when \<open>sourceId\<close> differs from \<open>targetId\<close>, the edge is not there yet, the
  cycle check passes and the target feature is found, \<open>handleCreateDependency\<close> returns true
  whatever \<open>onUpdateFeature\<close> is. When \<open>onUpdateFeature\<close> is absent the features stay as
  they were, so the edge still does not exist. When it is supplied, it is called with
  \<open>targetId\<close> and the target's previous dependencies followed by \<open>sourceId\<close>; when it
  applies the update to the store, the target feature's dependencies become exactly that
  list and the direct edge exists afterwards. The new dependencies are free of duplicates
  exactly when the previous ones were.
\<close>

theorem dependency_created:
  assumes "sourceId \<noteq> targetId"
    and "\<not> dependencyExists features sourceId targetId"
    and "\<not> wouldCreateCircularDependency features sourceId targetId"
    and "find (\<lambda>f. fid f = targetId) features = Some targetFeature"
  shows "returned (handleCreateDependency onUpdateFeature features sourceId targetId) \<and>
         store (handleCreateDependency None features sourceId targetId) = features \<and>
         \<not> dependencyExists
             (store (handleCreateDependency None features sourceId targetId))
             sourceId targetId \<and>
         store (handleCreateDependency (Some g) features sourceId targetId) =
           g targetId (dependenciesUpdate (deps_of targetFeature @ [sourceId])) features \<and>
         find (\<lambda>f. fid f = targetId)
             (store (handleCreateDependency (Some updateFeature) features sourceId targetId)) =
           Some (targetFeature\<lparr>dependencies := Some (deps_of targetFeature @ [sourceId])\<rparr>) \<and>
         dependencyExists
             (store (handleCreateDependency (Some updateFeature) features sourceId targetId))
             sourceId targetId \<and>
         (distinct (deps_of targetFeature @ [sourceId]) \<longleftrightarrow> distinct (deps_of targetFeature))"
proof -
  let ?r = "handleCreateDependency (Some updateFeature) features sourceId targetId"
  from assms have ret: "returned (handleCreateDependency onUpdateFeature features sourceId targetId)"
    by (simp add: handleCreateDependency_def)
  from assms have absent: "store (handleCreateDependency None features sourceId targetId) = features"
    by (simp add: handleCreateDependency_def callUpdate_def)
  with assms(2) have still: "\<not> dependencyExists
      (store (handleCreateDependency None features sourceId targetId)) sourceId targetId"
    by simp
  from assms have called: "store (handleCreateDependency (Some g) features sourceId targetId) =
      g targetId (dependenciesUpdate (deps_of targetFeature @ [sourceId])) features"
    by (simp add: handleCreateDependency_def callUpdate_def)
  from assms have st: "store ?r =
      updateFeature targetId (dependenciesUpdate (deps_of targetFeature @ [sourceId])) features"
    by (simp add: handleCreateDependency_def callUpdate_def)
  from assms(4) have tf: "targetFeature \<in> set features" "fid targetFeature = targetId"
    by (auto dest: find_target)
  have fnd: "find (\<lambda>f. fid f = targetId) (store ?r) =
      Some (targetFeature\<lparr>dependencies := Some (deps_of targetFeature @ [sourceId])\<rparr>)"
    by (simp add: st find_updateFeature assms(4))
  have ex: "dependencyExists (store ?r) sourceId targetId"
    using tf by (auto simp: st dependencyExists_updateFeature)
  from assms(2) tf have "sourceId \<notin> set (deps_of targetFeature)"
    by (auto simp: dependencyExists_iff edges_iff)
  then have dist: "distinct (deps_of targetFeature @ [sourceId]) \<longleftrightarrow> distinct (deps_of targetFeature)"
    by simp
  from ret absent still called fnd ex dist show ?thesis by blast
qed

theorem dependency_created_witness:
  "handleCreateDependency (Some updateFeature)
     [exampleFeature ''a'' None, exampleFeature ''b'' (Some [''c''])] ''a'' ''b'' =
     \<lparr>returned = True, shown = ToastSuccess ''Dependency created'',
      store = [exampleFeature ''a'' None, exampleFeature ''b'' (Some [''c'', ''a''])]\<rparr> \<and>
   dependencyExists
     (store (handleCreateDependency (Some updateFeature)
        [exampleFeature ''a'' None, exampleFeature ''b'' (Some [''c''])] ''a'' ''b'')) ''a'' ''b'' \<and>
   returned (handleCreateDependency None
     [exampleFeature ''a'' None, exampleFeature ''b'' (Some [''c''])] ''a'' ''b'') \<and>
   store (handleCreateDependency None
     [exampleFeature ''a'' None, exampleFeature ''b'' (Some [''c''])] ''a'' ''b'') =
     [exampleFeature ''a'' None, exampleFeature ''b'' (Some [''c''])] \<and>
   distinct (deps_of (exampleFeature ''b'' (Some [''c''])) @ [''a''])"
proof -
  let ?fs = "[exampleFeature ''a'' None, exampleFeature ''b'' (Some [''c''])]"
  have 1: "''a'' \<noteq> ''b''" by simp
  have 2: "\<not> dependencyExists ?fs ''a'' ''b''" by (simp add: example_simps)
  have 3: "\<not> wouldCreateCircularDependency ?fs ''a'' ''b''" by (simp add: example_simps)
  have 4: "find (\<lambda>f. fid f = ''b'') ?fs = Some (exampleFeature ''b'' (Some [''c'']))"
    by (simp add: example_simps)
  have 5: "handleCreateDependency (Some updateFeature) ?fs ''a'' ''b'' =
     \<lparr>returned = True, shown = ToastSuccess ''Dependency created'',
      store = [exampleFeature ''a'' None, exampleFeature ''b'' (Some [''c'', ''a''])]\<rparr>"
    by (simp add: example_simps)
  have 6: "distinct (deps_of (exampleFeature ''b'' (Some [''c''])))"
    by (simp add: example_simps)
  from dependency_created [OF 1 2 3 4, of None] 5 6 show ?thesis by blast
qed

text \<open>
  C5 as stated fails in two ways. When the optional \<open>onUpdateFeature\<close> is absent, the call
  returns true, yet nothing is updated and the edge does not exist afterwards. And when the
  target's dependencies hold an id twice, the call returns true and they still hold it twice
  afterwards.
\<close>

theorem dependency_created_counterexample:
  "returned (handleCreateDependency None
      [exampleFeature ''a'' None, exampleFeature ''b'' None] ''a'' ''b'') \<and>
   store (handleCreateDependency None
      [exampleFeature ''a'' None, exampleFeature ''b'' None] ''a'' ''b'') =
     [exampleFeature ''a'' None, exampleFeature ''b'' None] \<and>
   \<not> dependencyExists (store (handleCreateDependency None
      [exampleFeature ''a'' None, exampleFeature ''b'' None] ''a'' ''b'')) ''a'' ''b'' \<and>
   handleCreateDependency (Some updateFeature)
      [exampleFeature ''a'' None, exampleFeature ''b'' (Some [''c'', ''c''])] ''a'' ''b'' =
     \<lparr>returned = True, shown = ToastSuccess ''Dependency created'',
      store = [exampleFeature ''a'' None, exampleFeature ''b'' (Some [''c'', ''c'', ''a''])]\<rparr> \<and>
   \<not> distinct (deps_of (exampleFeature ''b'' (Some [''c'', ''c'', ''a''])))"
  by (simp add: example_simps)

text \<open>
  C6, as amended: when the target feature is among the features, \<open>onDeleteDependency\<close>
  shows the success toast whatever \<open>onUpdateFeature\<close> is. When \<open>onUpdateFeature\<close> is absent
  the features stay as they were: nothing is removed. When it is supplied, it is called
  with \<open>targetId\<close> and the target's dependencies without \<open>sourceId\<close>; when it applies the
  update to the store, every feature is kept (the ids, in order), every feature with another
  id is as it was, and of the target feature only the dependencies change: every occurrence
  of \<open>sourceId\<close> is gone, the other entries stay in their order.
\<close>

theorem dependency_deleted:
  assumes "find (\<lambda>f. fid f = targetId) features = Some targetFeature"
  shows "onDeleteDependency None features sourceId targetId =
           (Some (ToastSuccess ''Dependency removed''), features) \<and>
         onDeleteDependency (Some g) features sourceId targetId =
           (Some (ToastSuccess ''Dependency removed''),
            g targetId
              (dependenciesUpdate (filter (\<lambda>depId. depId \<noteq> sourceId) (deps_of targetFeature)))
              features) \<and>
         map fid (snd (onDeleteDependency (Some updateFeature) features sourceId targetId)) =
           map fid features \<and>
         (\<forall>i < length features. fid (features ! i) \<noteq> targetId \<longrightarrow>
            snd (onDeleteDependency (Some updateFeature) features sourceId targetId) ! i =
              features ! i) \<and>
         find (\<lambda>f. fid f = targetId)
             (snd (onDeleteDependency (Some updateFeature) features sourceId targetId)) =
           Some (targetFeature\<lparr>dependencies :=
                   Some (filter (\<lambda>depId. depId \<noteq> sourceId) (deps_of targetFeature))\<rparr>) \<and>
         \<not> dependencyExists
             (snd (onDeleteDependency (Some updateFeature) features sourceId targetId))
             sourceId targetId"
proof -
  let ?ds = "filter (\<lambda>depId. depId \<noteq> sourceId) (deps_of targetFeature)"
  have absent: "onDeleteDependency None features sourceId targetId =
      (Some (ToastSuccess ''Dependency removed''), features)"
    using assms by (simp add: onDeleteDependency_def callUpdate_def)
  have called: "onDeleteDependency (Some g) features sourceId targetId =
      (Some (ToastSuccess ''Dependency removed''), g targetId (dependenciesUpdate ?ds) features)"
    using assms by (simp add: onDeleteDependency_def callUpdate_def)
  have st: "snd (onDeleteDependency (Some updateFeature) features sourceId targetId) =
      updateFeature targetId (dependenciesUpdate ?ds) features"
    using assms by (simp add: onDeleteDependency_def callUpdate_def)
  have ids: "map fid (updateFeature targetId (dependenciesUpdate ?ds) features) = map fid features"
    by (rule map_fid_updateFeature)
  have others: "\<forall>i < length features. fid (features ! i) \<noteq> targetId \<longrightarrow>
      updateFeature targetId (dependenciesUpdate ?ds) features ! i = features ! i"
    by (simp add: updateFeature_dependencies)
  have fnd: "find (\<lambda>f. fid f = targetId) (updateFeature targetId (dependenciesUpdate ?ds) features) =
      Some (targetFeature\<lparr>dependencies := Some ?ds\<rparr>)"
    by (simp add: find_updateFeature assms)
  have gone: "\<not> dependencyExists (updateFeature targetId (dependenciesUpdate ?ds) features)
      sourceId targetId"
    by (simp add: dependencyExists_updateFeature)
  from absent called ids others fnd gone show ?thesis unfolding st by blast
qed

theorem dependency_deleted_witness:
  "onDeleteDependency (Some updateFeature)
     [exampleFeature ''a'' (Some [''b'']), exampleFeature ''b'' (Some [''a'', ''c'', ''a''])] ''a'' ''b'' =
     (Some (ToastSuccess ''Dependency removed''),
      [exampleFeature ''a'' (Some [''b'']), exampleFeature ''b'' (Some [''c''])]) \<and>
   \<not> dependencyExists
     (snd (onDeleteDependency (Some updateFeature)
        [exampleFeature ''a'' (Some [''b'']), exampleFeature ''b'' (Some [''a'', ''c'', ''a''])]
        ''a'' ''b'')) ''a'' ''b'' \<and>
   onDeleteDependency None
     [exampleFeature ''a'' (Some [''b'']), exampleFeature ''b'' (Some [''a'', ''c'', ''a''])] ''a'' ''b'' =
     (Some (ToastSuccess ''Dependency removed''),
      [exampleFeature ''a'' (Some [''b'']), exampleFeature ''b'' (Some [''a'', ''c'', ''a''])])"
proof -
  let ?fs = "[exampleFeature ''a'' (Some [''b'']), exampleFeature ''b'' (Some [''a'', ''c'', ''a''])]"
  have f: "find (\<lambda>f. fid f = ''b'') ?fs = Some (exampleFeature ''b'' (Some [''a'', ''c'', ''a'']))"
    by (simp add: example_simps)
  have v: "onDeleteDependency (Some updateFeature) ?fs ''a'' ''b'' =
     (Some (ToastSuccess ''Dependency removed''),
      [exampleFeature ''a'' (Some [''b'']), exampleFeature ''b'' (Some [''c''])])"
    by (simp add: onDeleteDependency_def example_simps)
  from dependency_deleted [OF f, of "''a''"] v show ?thesis by blast
qed

text \<open>
  C6 as stated fails when the optional \<open>onUpdateFeature\<close> is absent: the target still
  lists \<open>sourceId\<close> after the call.
\<close>

theorem dependency_deleted_counterexample:
  "dependencyExists [exampleFeature ''a'' None, exampleFeature ''b'' (Some [''a''])] ''a'' ''b'' \<and>
   onDeleteDependency None
     [exampleFeature ''a'' None, exampleFeature ''b'' (Some [''a''])] ''a'' ''b'' =
     (Some (ToastSuccess ''Dependency removed''),
      [exampleFeature ''a'' None, exampleFeature ''b'' (Some [''a''])]) \<and>
   dependencyExists
     (snd (onDeleteDependency None
        [exampleFeature ''a'' None, exampleFeature ''b'' (Some [''a''])] ''a'' ''b'')) ''a'' ''b''"
  by (simp add: onDeleteDependency_def example_simps)

text \<open>
  C7: a feature that is not completed and has no \<open>branchName\<close> is among the filtered
  features if and only if \<open>currentWorktreePath\<close> is null.
\<close>

theorem unbranched_shown_on_primary:
  assumes "f \<in> set features" and "status f \<noteq> ''completed''" and "branchName f = None"
  shows "f \<in> set (filteredFeatures isPrimaryWorktreeBranch features currentWorktreePath
                    currentWorktreeBranch projectPath)
         \<longleftrightarrow> currentWorktreePath = None"
  using assms by (simp add: filteredFeatures_def shownInGraph_def present_def)

theorem unbranched_shown_on_primary_witness:
  "filteredFeatures (\<lambda>p b. False) [exampleFeature ''a'' None] None (Some ''main'') (Some ''/repo'') =
     [exampleFeature ''a'' None] \<and>
   filteredFeatures (\<lambda>p b. False) [exampleFeature ''a'' None] (Some ''/repo/wt'') (Some ''main'')
     (Some ''/repo'') = []"
proof -
  let ?f = "exampleFeature ''a'' None"
  have 1: "?f \<in> set [?f]" by simp
  have 2: "status ?f \<noteq> ''completed''" by (simp add: exampleFeature_def)
  have 3: "branchName ?f = None" by (simp add: exampleFeature_def)
  from unbranched_shown_on_primary [OF 1 2 3, of "\<lambda>p b. False" None "Some ''main''" "Some ''/repo''"]
  have a: "filteredFeatures (\<lambda>p b. False) [?f] None (Some ''main'') (Some ''/repo'') = [?f]"
    by (simp add: filteredFeatures_def split: if_splits)
  from unbranched_shown_on_primary [OF 1 2 3, of "\<lambda>p b. False" "Some ''/repo/wt''" "Some ''main''" "Some ''/repo''"]
  have b: "filteredFeatures (\<lambda>p b. False) [?f] (Some ''/repo/wt'') (Some ''main'') (Some ''/repo'') = []"
    by (simp add: filteredFeatures_def split: if_splits)
  from a b show ?thesis by simp
qed

text \<open>
  C8: no feature of the filtered features has status \<open>completed\<close>, whatever the
  worktree, the branch and the project path are.
\<close>

theorem completed_never_shown:
  "\<forall>f \<in> set (filteredFeatures isPrimaryWorktreeBranch features currentWorktreePath
                 currentWorktreeBranch projectPath). status f \<noteq> ''completed''"
  by (simp add: filteredFeatures_def shownInGraph_def)

theorem completed_never_shown_witness:
  "filteredFeatures (\<lambda>p b. True)
     [exampleFeature ''a'' None, (exampleFeature ''b'' None)\<lparr>status := ''completed''\<rparr>]
     None None None = [exampleFeature ''a'' None] \<and>
   status (exampleFeature ''a'' None) \<noteq> ''completed''"
proof -
  let ?fs = "[exampleFeature ''a'' None, (exampleFeature ''b'' None)\<lparr>status := ''completed''\<rparr>]"
  have v: "filteredFeatures (\<lambda>p b. True) ?fs None None None = [exampleFeature ''a'' None]"
    by (simp add: filteredFeatures_def shownInGraph_def present_def exampleFeature_def)
  from completed_never_shown [of "\<lambda>p b. True" ?fs None None None] v show ?thesis by simp
qed

section \<open>Properties of the authentication\<close>

lemma validateSession_result:
  "fst (validateSession now token vs) \<longleftrightarrow> (\<exists>s. vs token = Some s \<and> now \<le> expiresAt s)"
  by (auto simp: validateSession_def split: option.splits)

lemma validateSession_keeps_absent:
  "vs token = None \<Longrightarrow> snd (validateSession now' token' vs) token = None"
  by (simp add: validateSession_def split: option.splits)

lemma validateAll_keeps_absent:
  "vs token = None \<Longrightarrow> validateAll calls vs token = None"
proof (induction calls arbitrary: vs)
  case Nil
  then show ?case by simp
next
  case (Cons c calls)
  obtain now' token' where c: "c = (now', token')" by (cases c)
  from Cons.prems have "snd (validateSession now' token' vs) token = None"
    by (rule validateSession_keeps_absent)
  then have "validateAll calls (snd (validateSession now' token' vs)) token = None"
    by (rule Cons.IH)
  with c show ?case by simp
qed

text \<open>
  C10: \<open>validateSession\<close> returns true exactly when the token is in the store and the
  clock has not passed its \<open>expiresAt\<close>. On an expired token it deletes the session, and
  then every later \<open>validateSession\<close> call for that token returns false, whatever calls
  come in between. On a valid or unknown token the store stays as it is.
\<close>

theorem validateSession_correct:
  "(fst (validateSession now token validSessions)
      \<longleftrightarrow> (\<exists>s. validSessions token = Some s \<and> now \<le> expiresAt s)) \<and>
   ((\<exists>s. validSessions token = Some s \<and> now > expiresAt s) \<longrightarrow>
      snd (validateSession now token validSessions) = validSessions(token := None) \<and>
      (\<forall>calls now'.
         \<not> fst (validateSession now' token
                 (validateAll calls (snd (validateSession now token validSessions)))))) \<and>
   (\<not> (\<exists>s. validSessions token = Some s \<and> now > expiresAt s) \<longrightarrow>
      snd (validateSession now token validSessions) = validSessions)"
proof (intro conjI impI)
  show "fst (validateSession now token validSessions)
      \<longleftrightarrow> (\<exists>s. validSessions token = Some s \<and> now \<le> expiresAt s)"
    by (rule validateSession_result)
next
  assume e: "\<exists>s. validSessions token = Some s \<and> now > expiresAt s"
  then show d: "snd (validateSession now token validSessions) = validSessions(token := None)"
    by (auto simp: validateSession_def)
  show "\<forall>calls now'.
         \<not> fst (validateSession now' token
                 (validateAll calls (snd (validateSession now token validSessions))))"
  proof (intro allI)
    fix calls now'
    have "(validSessions(token := None)) token = None" by simp
    then have "validateAll calls (validSessions(token := None)) token = None"
      by (rule validateAll_keeps_absent)
    then show "\<not> fst (validateSession now' token
                 (validateAll calls (snd (validateSession now token validSessions))))"
      by (simp add: d validateSession_result)
  qed
next
  assume "\<not> (\<exists>s. validSessions token = Some s \<and> now > expiresAt s)"
  then show "snd (validateSession now token validSessions) = validSessions"
    by (auto simp: validateSession_def split: option.splits)
qed

theorem validateSession_correct_witness:
  "validateSession 101 ''tok'' [''tok'' \<mapsto> \<lparr>createdAt = 0, expiresAt = 100\<rparr>] = (False, Map.empty) \<and>
   \<not> fst (validateSession 50 ''tok''
        (validateAll [(60, ''other''), (70, ''tok'')]
           (snd (validateSession 101 ''tok'' [''tok'' \<mapsto> \<lparr>createdAt = 0, expiresAt = 100\<rparr>])))) \<and>
   validateSession 100 ''tok'' [''tok'' \<mapsto> \<lparr>createdAt = 0, expiresAt = 100\<rparr>] =
     (True, [''tok'' \<mapsto> \<lparr>createdAt = 0, expiresAt = 100\<rparr>])"
proof -
  let ?vs = "[''tok'' \<mapsto> \<lparr>createdAt = 0, expiresAt = 100\<rparr>]"
  have e: "\<exists>s. ?vs ''tok'' = Some s \<and> 101 > expiresAt s" by simp
  have v: "\<not> (\<exists>s. ?vs ''tok'' = Some s \<and> 100 > expiresAt s)" by simp
  have f: "fst (validateSession 100 ''tok'' ?vs)" "\<not> fst (validateSession 101 ''tok'' ?vs)"
    by (simp_all add: validateSession_def)
  from validateSession_correct [of 101 "''tok''" ?vs] e
  have 1: "snd (validateSession 101 ''tok'' ?vs) = Map.empty"
    and a: "\<forall>calls now'. \<not> fst (validateSession now' ''tok''
        (validateAll calls (snd (validateSession 101 ''tok'' ?vs))))"
    by auto
  from a have 2: "\<not> fst (validateSession 50 ''tok''
        (validateAll [(60, ''other''), (70, ''tok'')] (snd (validateSession 101 ''tok'' ?vs))))"
    by blast
  from validateSession_correct [of 100 "''tok''" ?vs] v
  have 3: "snd (validateSession 100 ''tok'' ?vs) = ?vs" by blast
  from 1 2 3 f show ?thesis by (simp add: prod_eq_iff)
qed

lemma createSession_valid:
  "now' \<le> now + SESSION_MAX_AGE_MS \<Longrightarrow>
   validateSession now' token (snd (createSession token now vs)) =
     (True, snd (createSession token now vs))"
  by (simp add: createSession_def validateSession_def)

text \<open>
  C9, as amended: a request whose \<open>X-API-Key\<close> header is not empty and differs from the
  configured key is answered with 403 and the store untouched, whatever session token,
  query parameter or cookie it carries. The same holds down the order: with no (or an
  empty) API-key header, a non-empty session-token header that does not validate gives 403
  whatever the query parameter and the cookie are; with neither header, a non-empty wrong
  \<open>apiKey\<close> query parameter gives 403 whatever the cookie is.
\<close>

theorem wrong_header_key_rejected:
  "(headerKey req = Some k \<and> k \<noteq> [] \<and> k \<noteq> API_KEY \<longrightarrow>
      authMiddleware API_KEY now req validSessions =
        (Status 403 ''Invalid API key.'', validSessions)) \<and>
   (present (headerKey req) = None \<and> sessionTokenHeader req = Some tok \<and> tok \<noteq> [] \<and>
    \<not> fst (validateSession now tok validSessions) \<longrightarrow>
      fst (authMiddleware API_KEY now req validSessions) =
        Status 403 ''Invalid or expired session token.'') \<and>
   (present (headerKey req) = None \<and> present (sessionTokenHeader req) = None \<and>
    queryKey req = Some q \<and> q \<noteq> [] \<and> q \<noteq> API_KEY \<longrightarrow>
      authMiddleware API_KEY now req validSessions =
        (Status 403 ''Invalid API key.'', validSessions))"
proof (intro conjI impI)
  assume "headerKey req = Some k \<and> k \<noteq> [] \<and> k \<noteq> API_KEY"
  then show "authMiddleware API_KEY now req validSessions =
        (Status 403 ''Invalid API key.'', validSessions)"
    by (simp add: authMiddleware_def present_def)
next
  assume a: "present (headerKey req) = None \<and> sessionTokenHeader req = Some tok \<and> tok \<noteq> [] \<and>
    \<not> fst (validateSession now tok validSessions)"
  then have "present (sessionTokenHeader req) = Some tok" by (simp add: present_def)
  with a show "fst (authMiddleware API_KEY now req validSessions) =
        Status 403 ''Invalid or expired session token.''"
    by (cases "validateSession now tok validSessions") (simp add: authMiddleware_def)
next
  assume a: "present (headerKey req) = None \<and> present (sessionTokenHeader req) = None \<and>
    queryKey req = Some q \<and> q \<noteq> [] \<and> q \<noteq> API_KEY"
  then have "present (queryKey req) = Some q" by (simp add: present_def)
  with a show "authMiddleware API_KEY now req validSessions =
        (Status 403 ''Invalid API key.'', validSessions)"
    by (simp add: authMiddleware_def)
qed

theorem wrong_header_key_rejected_witness:
  "authMiddleware ''secret'' 50
     \<lparr>headerKey = Some ''wrong'', sessionTokenHeader = Some ''tok'', queryKey = Some ''secret'',
      sessionCookie = Some ''tok''\<rparr>
     [''tok'' \<mapsto> \<lparr>createdAt = 0, expiresAt = 100\<rparr>] =
     (Status 403 ''Invalid API key.'', [''tok'' \<mapsto> \<lparr>createdAt = 0, expiresAt = 100\<rparr>]) \<and>
   fst (validateSession 50 ''tok'' [''tok'' \<mapsto> \<lparr>createdAt = 0, expiresAt = 100\<rparr>]) \<and>
   fst (authMiddleware ''secret'' 50
     \<lparr>headerKey = None, sessionTokenHeader = Some ''bad'', queryKey = Some ''secret'',
      sessionCookie = Some ''tok''\<rparr>
     [''tok'' \<mapsto> \<lparr>createdAt = 0, expiresAt = 100\<rparr>]) =
     Status 403 ''Invalid or expired session token.'' \<and>
   authMiddleware ''secret'' 50
     \<lparr>headerKey = None, sessionTokenHeader = None, queryKey = Some ''wrong'',
      sessionCookie = Some ''tok''\<rparr>
     [''tok'' \<mapsto> \<lparr>createdAt = 0, expiresAt = 100\<rparr>] =
     (Status 403 ''Invalid API key.'', [''tok'' \<mapsto> \<lparr>createdAt = 0, expiresAt = 100\<rparr>])"
proof -
  let ?vs = "[''tok'' \<mapsto> \<lparr>createdAt = 0, expiresAt = 100\<rparr>]"
  let ?r1 = "\<lparr>headerKey = Some ''wrong'', sessionTokenHeader = Some ''tok'',
              queryKey = Some ''secret'', sessionCookie = Some ''tok''\<rparr>"
  let ?r2 = "\<lparr>headerKey = None, sessionTokenHeader = Some ''bad'',
              queryKey = Some ''secret'', sessionCookie = Some ''tok''\<rparr>"
  let ?r3 = "\<lparr>headerKey = None, sessionTokenHeader = None,
              queryKey = Some ''wrong'', sessionCookie = Some ''tok''\<rparr>"
  have v: "fst (validateSession 50 ''tok'' ?vs)" "\<not> fst (validateSession 50 ''bad'' ?vs)"
    by (simp_all add: validateSession_def)
  from wrong_header_key_rejected [where req = ?r1 and k = "''wrong''" and API_KEY = "''secret''"
      and now = 50 and validSessions = ?vs]
  have 1: "authMiddleware ''secret'' 50 ?r1 ?vs = (Status 403 ''Invalid API key.'', ?vs)"
    by simp
  from wrong_header_key_rejected [where req = ?r2 and tok = "''bad''" and API_KEY = "''secret''"
      and now = 50 and validSessions = ?vs] v(2)
  have 2: "fst (authMiddleware ''secret'' 50 ?r2 ?vs) = Status 403 ''Invalid or expired session token.''"
    by (simp add: present_def)
  from wrong_header_key_rejected [where req = ?r3 and q = "''wrong''" and API_KEY = "''secret''"
      and now = 50 and validSessions = ?vs]
  have 3: "authMiddleware ''secret'' 50 ?r3 ?vs = (Status 403 ''Invalid API key.'', ?vs)"
    by (simp add: present_def)
  from 1 2 3 v(1) show ?thesis by simp
qed

text \<open>
  C9 as stated fails for an \<open>X-API-Key\<close> header with an empty value: it differs from the
  configured key, yet the truthiness test skips it and a valid session token lets the
  request through.
\<close>

theorem wrong_header_key_rejected_counterexample:
  "'''' \<noteq> ''secret'' \<and>
   authMiddleware ''secret'' 50
     \<lparr>headerKey = Some '''', sessionTokenHeader = Some ''tok'', queryKey = None,
      sessionCookie = None\<rparr>
     [''tok'' \<mapsto> \<lparr>createdAt = 0, expiresAt = 100\<rparr>] =
     (Next, [''tok'' \<mapsto> \<lparr>createdAt = 0, expiresAt = 100\<rparr>])"
  by (simp add: authMiddleware_def present_def validateSession_def)

end
